theory Spec2Isabelle
  imports Main "HOL-Library.Word"
begin

section \<open>The parser-combinator engine of \<^verbatim>\<open>parsec.go\<close>\<close>

subsection \<open>Data model\<close>

text \<open>
  \<^verbatim>\<open>type ParseState struct { Source string; Pos int; Line int }\<close>.
  A Go string is a sequence of bytes and \<^verbatim>\<open>st.Source[i]\<close> reads one byte, so the
  source is a \<^typ>\<open>string\<close> (a list of 8-bit characters).

  \<^verbatim>\<open>Line\<close> is a Go \<^verbatim>\<open>int\<close>, 64 bits wide, and \<^verbatim>\<open>st.Line++\<close> is executed
  for every line feed consumed, from whatever value the state holds: it wraps around. The
  field is a 64-bit word, on which \<open>+\<close> wraps; \<^term>\<open>sint\<close> reads it as the signed
  number Go prints.

  \<^verbatim>\<open>Pos\<close> is a Go \<^verbatim>\<open>int\<close> as well. The code increases it only while it is below
  \<^verbatim>\<open>len(st.Source)\<close>, itself an \<^verbatim>\<open>int\<close>, so that increment never wraps, and
  otherwise assigns it a value it had before; it is modelled as an \<^typ>\<open>int\<close>.
\<close>

record ParseState =
  Source :: string
  Pos :: int
  Line :: "64 word"

text \<open>
  \<^verbatim>\<open>type ParseErr struct { Reason string; Line int }\<close>; the second field is called
  \<open>ErrLine\<close> here, because \<open>Line\<close> is already the field of the state.
\<close>

record ParseErr =
  Reason :: string
  ErrLine :: "64 word"

text \<open>
  The values a parser returns are of type \<^verbatim>\<open>interface{}\<close>. The library itself
  produces \<^verbatim>\<open>nil\<close>, a byte, a string, and a slice of such values.
\<close>

datatype val = VNil | VByte char | VStr string | VList "val list"

text \<open>
  \<^verbatim>\<open>type Parser func (*ParseState) (interface{}, error)\<close>. The state behind the
  pointer is mutated in place; the model returns it as third component, next to the value
  and the error (\<open>None\<close> for Go's \<^verbatim>\<open>nil\<close> error). A call that does not
  return at all (a run-time panic, or a recursion that has not finished within its fuel) is
  the outcome \<open>None\<close>.
\<close>

type_synonym result = "val \<times> ParseErr option \<times> ParseState"

type_synonym Parser = "ParseState \<Rightarrow> result option"

subsection \<open>Cursor primitive and error construction\<close>

text \<open>
  \<^verbatim>\<open>func (st *ParseState) next(pred func(byte) bool) (byte, bool)\<close>.
  Indexing a string with a negative offset panics in Go; the bounds test of the source only
  compares with the length.
\<close>

definition "next" :: "(char \<Rightarrow> bool) \<Rightarrow> ParseState \<Rightarrow> (char \<times> bool \<times> ParseState) option" where
  "next pred st =
     (if Pos st < int (length (Source st)) then
        (if Pos st < 0 then None
         else
           let c = Source st ! nat (Pos st) in
           if pred c = False then Some (c, False, st)
           else
             let st1 = st\<lparr>Pos := Pos st + 1\<rparr>;
                 st2 = (if c = CHR 0x0A then st1\<lparr>Line := Line st1 + 1\<rparr> else st1)
             in Some (c, True, st2))
      else Some (CHR 0x00, False, st))"

text \<open>
  \<^verbatim>\<open>func (st *ParseState) trap(format string, args... interface{}) ParseErr\<close>.
  The formatting is done by the callers below; \<open>trap\<close> receives the formatted reason.
\<close>

definition trap :: "ParseState \<Rightarrow> string \<Rightarrow> ParseErr" where
  "trap st reason = \<lparr>Reason = reason, ErrLine = Line st\<rparr>"

text \<open>
  The verb \<^verbatim>\<open>%c\<close> of \<^verbatim>\<open>fmt.Sprintf\<close> applied to a byte prints the code point
  of that number in UTF-8: one byte below 128, two bytes from 128 on.
\<close>

definition fmt_c :: "char \<Rightarrow> string" where
  "fmt_c c =
     (let n = (of_char c :: nat) in
      if n < 128 then [c]
      else [char_of (192 + n div 64), char_of (128 + n mod 64)])"

definition quote :: string where
  "quote = [CHR 0x27]"

text \<open>\<^verbatim>\<open>func Parse(source string, p Parser) (interface{}, error)\<close>\<close>

definition initial :: "string \<Rightarrow> ParseState" where
  "initial source = \<lparr>Source = source, Pos = 0, Line = 1\<rparr>"

definition Parse :: "string \<Rightarrow> Parser \<Rightarrow> (val \<times> ParseErr option) option" where
  "Parse source p =
     (case p (initial source) of
        None \<Rightarrow> None
      | Some (x, err, st) \<Rightarrow> Some (x, err))"

subsection \<open>Monadic core\<close>

definition Bind :: "Parser \<Rightarrow> (val \<Rightarrow> Parser) \<Rightarrow> Parser" where
  "Bind p f = (\<lambda>st.
     case p st of
       None \<Rightarrow> None
     | Some (x, err, st1) \<Rightarrow>
         if err \<noteq> None then Some (VNil, err, st1)
         else f x st1)"

text \<open>\<^verbatim>\<open>Bind_\<close> of the source; an identifier cannot end in an underscore here.\<close>

definition Bind' :: "Parser \<Rightarrow> Parser \<Rightarrow> Parser" where
  "Bind' p1 p2 = (\<lambda>st.
     case p1 st of
       None \<Rightarrow> None
     | Some (x, err, st1) \<Rightarrow>
         if err \<noteq> None then Some (VNil, err, st1)
         else p2 st1)"

definition Return :: "val \<Rightarrow> Parser" where
  "Return x = (\<lambda>st. Some (x, None, st))"

subsection \<open>Control combinators\<close>

definition Either :: "Parser \<Rightarrow> Parser \<Rightarrow> Parser" where
  "Either p1 p2 = (\<lambda>st.
     let oldPos = Pos st in
     case p1 st of
       None \<Rightarrow> None
     | Some (x, err, st1) \<Rightarrow>
         if err = None then Some (x, None, st1)
         else if Pos st1 = oldPos then p2 st1
         else Some (VNil, err, st1))"

definition Try :: "Parser \<Rightarrow> Parser" where
  "Try p = (\<lambda>st.
     let oldPos = Pos st in
     case p st of
       None \<Rightarrow> None
     | Some (x, err, st1) \<Rightarrow>
         if err = None then Some (x, None, st1)
         else Some (VNil, err, st1\<lparr>Pos := oldPos\<rparr>))"

subsection \<open>Primitive matchers\<close>

definition AnyChar :: Parser where
  "AnyChar = (\<lambda>st.
     case next (\<lambda>x. True) st of
       None \<Rightarrow> None
     | Some (c, ok, st1) \<Rightarrow>
         if ok then Some (VByte c, None, st1)
         else Some (VNil, Some (trap st1 ''Unexpected end of file''), st1))"

definition Eof :: Parser where
  "Eof = (\<lambda>st.
     case next (\<lambda>x. True) st of
       None \<Rightarrow> None
     | Some (c, ok, st1) \<Rightarrow>
         if ok then
           Some (VNil, Some (trap st1 (''Expected end of file but got '' @ quote @ fmt_c c @ quote)), st1)
         else Some (VNil, None, st1))"

definition Char :: "char \<Rightarrow> Parser" where
  "Char c = (\<lambda>st.
     case next (\<lambda>b. b = c) st of
       None \<Rightarrow> None
     | Some (x, ok, st1) \<Rightarrow>
         if ok then Some (VByte x, None, st1)
         else Some (VNil, Some (trap st1 (''Expected '' @ quote @ fmt_c c @ quote)), st1))"

definition OneOf :: "string \<Rightarrow> Parser" where
  "OneOf bs = (\<lambda>st.
     case next (\<lambda>c. c \<in> set bs) st of
       None \<Rightarrow> None
     | Some (x, ok, st1) \<Rightarrow>
         if ok then Some (VByte x, None, st1)
         else Some (VNil,
                Some (trap st1 (''Expected one of '' @ quote @ bs @ quote @ '' but got '' @ quote @ fmt_c x @ quote)),
                st1))"

text \<open>
  \<^verbatim>\<open>String(s)\<close>: the \<^verbatim>\<open>for _, c := range []byte(s)\<close> loop is the recursion
  \<open>String_loop\<close> over the bytes still to be matched.
\<close>

fun String_loop :: "string \<Rightarrow> int \<Rightarrow> string \<Rightarrow> ParseState \<Rightarrow> result option" where
  "String_loop s oldPos [] st = Some (VStr s, None, st)"
| "String_loop s oldPos (c # cs) st =
     (case next (\<lambda>b. b = c) st of
        None \<Rightarrow> None
      | Some (x, ok, st1) \<Rightarrow>
          if ok = False then
            (let st2 = st1\<lparr>Pos := oldPos\<rparr>
             in Some (VNil, Some (trap st2 (''Expected '' @ quote @ s @ quote)), st2))
          else String_loop s oldPos cs st1)"

definition String :: "string \<Rightarrow> Parser" where
  "String s = (\<lambda>st. let oldPos = Pos st in String_loop s oldPos s st)"

text \<open>
  Two of the prebuilt parsers:
  \<^verbatim>\<open>var Lowercase = OneOf([]byte("abcdefghijklmnopqrstuvwxyz"))\<close> and
  \<^verbatim>\<open>var Digit = OneOf([]byte("0123456789"))\<close>.
\<close>

definition Lowercase :: Parser where
  "Lowercase = OneOf ''abcdefghijklmnopqrstuvwxyz''"

definition Digit :: Parser where
  "Digit = OneOf ''0123456789''"

subsection \<open>Repetition combinators\<close>

definition Option :: "val \<Rightarrow> Parser \<Rightarrow> Parser" where
  "Option x p = Either p (Return x)"

text \<open>
  The continuation \<^verbatim>\<open>tail\<close> shared by \<^verbatim>\<open>Many1\<close>, \<^verbatim>\<open>SepBy1\<close> and
  \<^verbatim>\<open>ManyTil\<close>: \<^verbatim>\<open>Return(append([]interface{}{x}, xs.([]interface{})...))\<close>.
  The type assertion panics when \<^verbatim>\<open>xs\<close> is not a slice.
\<close>

definition tail :: "val \<Rightarrow> val \<Rightarrow> Parser" where
  "tail x xs = (case xs of VList ys \<Rightarrow> Return (VList ([x] @ ys)) | _ \<Rightarrow> (\<lambda>st. None))"

text \<open>
  \<^verbatim>\<open>Many1\<close> and \<^verbatim>\<open>Many\<close> call each other without bound: every run of
  \<^verbatim>\<open>Many1(p)\<close> that gets past \<^verbatim>\<open>p\<close> runs \<^verbatim>\<open>Many(p)\<close>, hence
  \<^verbatim>\<open>Many1(p)\<close> again. The first argument is the fuel: the number of nested runs of
  \<^verbatim>\<open>Many1\<close> allowed. With no fuel left there is no result.
\<close>

fun Many1 :: "nat \<Rightarrow> Parser \<Rightarrow> Parser" and Many :: "nat \<Rightarrow> Parser \<Rightarrow> Parser" where
  "Many1 0 p = (\<lambda>st. None)"
| "Many1 (Suc n) p = Bind p (\<lambda>x. Bind (Many n p) (tail x))"
| "Many n p = Option (VList []) (Many1 n p)"

definition Maybe :: "Parser \<Rightarrow> Parser" where
  "Maybe p = Option VNil (Bind' p (Return VNil))"

text \<open>
  \<^verbatim>\<open>SepBy1(p, sep)\<close> is \<^verbatim>\<open>Bind(p, head)\<close> with
  \<^verbatim>\<open>head(x) = Bind(Many(Bind_(sep, p)), tail)\<close>; its fuel is the fuel of that
  \<^verbatim>\<open>Many\<close>.
\<close>

definition SepBy1 :: "nat \<Rightarrow> Parser \<Rightarrow> Parser \<Rightarrow> Parser" where
  "SepBy1 n p sep = Bind p (\<lambda>x. Bind (Many n (Bind' sep p)) (tail x))"

text \<open>
  \<^verbatim>\<open>ManyTil(p, end)\<close> calls itself from \<^verbatim>\<open>head\<close>, once for every element
  before the terminator; the fuel is the number of nested runs allowed.
\<close>

fun ManyTil :: "nat \<Rightarrow> Parser \<Rightarrow> Parser \<Rightarrow> Parser" where
  "ManyTil 0 p end = (\<lambda>st. None)"
| "ManyTil (Suc n) p end =
     (let term = Bind' (Try end) (Return (VList []))
      in Either term (Bind p (\<lambda>x. Bind (ManyTil n p end) (tail x))))"

subsection \<open>Notions used to state the properties\<close>

text \<open>
  The input still to be read, the longest part of a pattern that the input starts with, the
  number of line feeds in a sequence of bytes (as the line counter counts them, modulo
  \<open>2 ^ 64\<close>), and the state after consuming one byte.
\<close>

definition rest :: "ParseState \<Rightarrow> string" where
  "rest st = drop (nat (Pos st)) (Source st)"

fun matched :: "string \<Rightarrow> string \<Rightarrow> string" where
  "matched (c # cs) (b # bs) = (if b = c then c # matched cs bs else [])"
| "matched cs bs = []"

definition newlines :: "string \<Rightarrow> 64 word" where
  "newlines cs = of_nat (length (filter (\<lambda>c. c = CHR 0x0A) cs))"

definition advance :: "char \<Rightarrow> ParseState \<Rightarrow> ParseState" where
  "advance c st = st\<lparr>Pos := Pos st + 1, Line := (if c = CHR 0x0A then Line st + 1 else Line st)\<rparr>"

text \<open>
  Three properties of a parser that make \<open>Many\<close> of it succeed: its failures leave the
  position where it was; its successes keep the source and move the position forward,
  not beyond the end of the source; and it returns in every state whose position is an
  offset.
\<close>

definition fails_in_place :: "Parser \<Rightarrow> bool" where
  "fails_in_place p \<longleftrightarrow> (\<forall>st x e st'. p st = Some (x, Some e, st') \<longrightarrow> Pos st' = Pos st)"

definition advances :: "Parser \<Rightarrow> bool" where
  "advances p \<longleftrightarrow>
     (\<forall>st x st'. p st = Some (x, None, st') \<longrightarrow>
        Source st' = Source st \<and> Pos st < Pos st' \<and> Pos st' \<le> int (length (Source st)))"

definition returns :: "Parser \<Rightarrow> bool" where
  "returns p \<longleftrightarrow> (\<forall>st. 0 \<le> Pos st \<longrightarrow> p st \<noteq> None)"

text \<open>The number of bytes between the cursor and the end of the source.\<close>

definition remaining :: "ParseState \<Rightarrow> nat" where
  "remaining st = nat (int (length (Source st)) - Pos st)"

text \<open>
  \<open>interleaved p sep st xs k st'\<close>: from the state \<open>st\<close>, a successful run of \<open>p\<close>
  followed by \<open>k\<close> times a successful run of \<open>sep\<close> and then of \<open>p\<close>, each from the
  state the one before left, ends in \<open>st'\<close>; \<open>xs\<close> are the values of the runs of \<open>p\<close>,
  in order.
\<close>

inductive interleaved ::
    "Parser \<Rightarrow> Parser \<Rightarrow> ParseState \<Rightarrow> val list \<Rightarrow> nat \<Rightarrow> ParseState \<Rightarrow> bool"
  for p sep where
    single: "p st = Some (x, None, st') \<Longrightarrow> interleaved p sep st [x] 0 st'"
  | more: "p st = Some (x, None, st1) \<Longrightarrow> sep st1 = Some (y, None, st2) \<Longrightarrow>
           interleaved p sep st2 xs k st' \<Longrightarrow> interleaved p sep st (x # xs) (Suc k) st'"

code_pred interleaved .

text \<open>
  \<open>below p q\<close>: wherever \<open>p\<close> returns, \<open>q\<close> returns the same. It is used to show that a
  result, once there, does not depend on the fuel.
\<close>

definition below :: "Parser \<Rightarrow> Parser \<Rightarrow> bool" where
  "below p q \<longleftrightarrow> (\<forall>st r. p st = Some r \<longrightarrow> q st = Some r)"

section \<open>Properties\<close>

subsection \<open>Ordered choice and lookahead\<close>

text \<open>
  Claim C1 (Either boundary). For all parsers \<open>p\<close>, \<open>q\<close> and every state: if \<open>p\<close>
  succeeds, \<open>Either p q\<close> returns the result of \<open>p\<close>; if \<open>p\<close> fails with the position
  equal to its value before the attempt, \<open>Either p q\<close> is exactly the run of \<open>q\<close> from
  the state \<open>p\<close> left; if \<open>p\<close> fails with the position moved, \<open>Either p q\<close> returns
  the error of \<open>p\<close>, leaves the state where \<open>p\<close> left it, and does not run \<open>q\<close>: the
  result is the same for every \<open>q\<close>, also for one that never returns.
\<close>

theorem Either_boundary:
  "(p st = Some (x, None, st') \<longrightarrow> Either p q st = Some (x, None, st')) \<and>
   (p st = Some (x, Some e, st') \<and> Pos st' = Pos st \<longrightarrow> Either p q st = q st') \<and>
   (p st = Some (x, Some e, st') \<and> Pos st' \<noteq> Pos st \<longrightarrow>
      Either p q st = Some (VNil, Some e, st') \<and>
      Either p (\<lambda>s. None) st = Some (VNil, Some e, st'))"
  by (simp add: Either_def)

theorem Either_boundary_witness:
  "Either (Char CHR ''a'') (Char CHR ''b'') (initial ''a'') =
     Some (VByte CHR ''a'', None, \<lparr>Source = ''a'', Pos = 1, Line = 1\<rparr>) \<and>
   Either (Char CHR ''a'') (Char CHR ''b'') (initial ''b'') =
     Char CHR ''b'' (initial ''b'') \<and>
   Either (Bind' (Char CHR ''a'') (Char CHR ''b'')) (Char CHR ''a'') (initial ''ac'') =
     Some (VNil, Some \<lparr>Reason = ''Expected '' @ quote @ ''b'' @ quote, ErrLine = 1\<rparr>,
           \<lparr>Source = ''ac'', Pos = 1, Line = 1\<rparr>)"
proof -
  have a: "Char CHR ''a'' (initial ''a'') =
      Some (VByte CHR ''a'', None, \<lparr>Source = ''a'', Pos = 1, Line = 1\<rparr>)"
    by (simp add: Char_def next_def initial_def Let_def)
  have b: "Char CHR ''a'' (initial ''b'') =
      Some (VNil, Some \<lparr>Reason = ''Expected '' @ quote @ ''a'' @ quote, ErrLine = 1\<rparr>, initial ''b'') \<and>
      Pos (initial ''b'') = Pos (initial ''b'')"
    by (simp add: Char_def next_def initial_def trap_def fmt_c_def Let_def)
  have c: "Bind' (Char CHR ''a'') (Char CHR ''b'') (initial ''ac'') =
      Some (VNil, Some \<lparr>Reason = ''Expected '' @ quote @ ''b'' @ quote, ErrLine = 1\<rparr>,
            \<lparr>Source = ''ac'', Pos = 1, Line = 1\<rparr>) \<and>
      Pos \<lparr>Source = ''ac'', Pos = 1, Line = 1\<rparr> \<noteq> Pos (initial ''ac'')"
    by (simp add: Bind'_def Char_def next_def initial_def trap_def fmt_c_def Let_def)
  from a b c
    Either_boundary [of "Char CHR ''a''" "initial ''a''" "VByte CHR ''a''"
      "\<lparr>Source = ''a'', Pos = 1, Line = 1\<rparr>" "Char CHR ''b''"]
    Either_boundary [of "Char CHR ''a''" "initial ''b''" VNil "initial ''b''" "Char CHR ''b''"
      "\<lparr>Reason = ''Expected '' @ quote @ ''a'' @ quote, ErrLine = 1\<rparr>"]
    Either_boundary [of "Bind' (Char CHR ''a'') (Char CHR ''b'')" "initial ''ac''" VNil
      "\<lparr>Source = ''ac'', Pos = 1, Line = 1\<rparr>" "Char CHR ''a''"
      "\<lparr>Reason = ''Expected '' @ quote @ ''b'' @ quote, ErrLine = 1\<rparr>"]
  show ?thesis by blast
qed

text \<open>
  Claim C2 (Try atomicity). For every parser \<open>p\<close> and every state: if \<open>p\<close> fails,
  \<open>Try p\<close> fails with the same error and puts the position back to its value before the
  call, whatever \<open>p\<close> consumed; if \<open>p\<close> succeeds, \<open>Try p\<close> returns the same value and
  the same state as \<open>p\<close>.
\<close>

theorem Try_atomicity:
  "(p st = Some (x, Some e, st') \<longrightarrow>
      Try p st = Some (VNil, Some e, st'\<lparr>Pos := Pos st\<rparr>)) \<and>
   (p st = Some (x, None, st') \<longrightarrow> Try p st = p st)"
  by (simp add: Try_def)

theorem Try_atomicity_witness:
  "Try (Bind' (Char CHR ''a'') (Char CHR ''b'')) (initial ''ac'') =
     Some (VNil, Some \<lparr>Reason = ''Expected '' @ quote @ ''b'' @ quote, ErrLine = 1\<rparr>,
           \<lparr>Source = ''ac'', Pos = 0, Line = 1\<rparr>) \<and>
   Try (Char CHR ''a'') (initial ''ac'') =
     Some (VByte CHR ''a'', None, \<lparr>Source = ''ac'', Pos = 1, Line = 1\<rparr>)"
proof -
  have f: "Bind' (Char CHR ''a'') (Char CHR ''b'') (initial ''ac'') =
      Some (VNil, Some \<lparr>Reason = ''Expected '' @ quote @ ''b'' @ quote, ErrLine = 1\<rparr>,
            \<lparr>Source = ''ac'', Pos = 1, Line = 1\<rparr>)"
    by (simp add: Bind'_def Char_def next_def initial_def trap_def fmt_c_def Let_def)
  have s: "Char CHR ''a'' (initial ''ac'') =
      Some (VByte CHR ''a'', None, \<lparr>Source = ''ac'', Pos = 1, Line = 1\<rparr>)"
    by (simp add: Char_def next_def initial_def Let_def)
  from f s
    Try_atomicity [of "Bind' (Char CHR ''a'') (Char CHR ''b'')" "initial ''ac''" VNil
      "\<lparr>Reason = ''Expected '' @ quote @ ''b'' @ quote, ErrLine = 1\<rparr>"
      "\<lparr>Source = ''ac'', Pos = 1, Line = 1\<rparr>"]
    Try_atomicity [of "Char CHR ''a''" "initial ''ac''" "VByte CHR ''a''" _
      "\<lparr>Source = ''ac'', Pos = 1, Line = 1\<rparr>"]
  show ?thesis by (simp add: initial_def)
qed

text \<open>
  Claim C10. In every state whose position lies inside the input, \<open>Eof\<close> fails and has
  consumed the byte under the cursor: the position is one further and the line counter has
  been incremented (in its 64-bit arithmetic) when that byte is a line feed, so the state
  differs from the one before the call. As left branch of \<open>Either\<close> such an \<open>Eof\<close> commits the choice: the right
  parser is not run, whatever it is.
\<close>

theorem Eof_consumes_on_failure:
  assumes "0 \<le> Pos st" and "Pos st < int (length (Source st))"
  shows "\<exists>e st'. Eof st = Some (VNil, Some e, st') \<and>
           Pos st' = Pos st + 1 \<and>
           Line st' = (if Source st ! nat (Pos st) = CHR 0x0A then Line st + 1 else Line st) \<and>
           Source st' = Source st \<and> st' \<noteq> st \<and>
           Reason e = ''Expected end of file but got '' @ quote @ fmt_c (Source st ! nat (Pos st)) @ quote \<and>
           ErrLine e = Line st' \<and>
           (\<forall>q. Either Eof q st = Some (VNil, Some e, st'))"
proof -
  let ?c = "Source st ! nat (Pos st)"
  let ?st' = "st\<lparr>Pos := Pos st + 1, Line := (if ?c = CHR 0x0A then Line st + 1 else Line st)\<rparr>"
  let ?e = "trap ?st' (''Expected end of file but got '' @ quote @ fmt_c ?c @ quote)"
  have n: "next (\<lambda>x. True) st = Some (?c, True, ?st')"
    using assms by (simp add: next_def Let_def)
  have r: "Eof st = Some (VNil, Some ?e, ?st')"
    by (simp add: Eof_def n)
  have d: "Pos ?st' \<noteq> Pos st" by simp
  then have ne: "?st' \<noteq> st" by metis
  have ei: "\<forall>q. Either Eof q st = Some (VNil, Some ?e, ?st')"
    using d by (simp add: Either_def r)
  show ?thesis
    using r ne ei by (intro exI [of _ ?e] exI [of _ ?st']) (simp add: trap_def)
qed

theorem Eof_consumes_on_failure_witness:
  "Eof (initial [CHR 0x0A]) =
     Some (VNil,
       Some \<lparr>Reason = ''Expected end of file but got '' @ quote @ [CHR 0x0A] @ quote, ErrLine = 2\<rparr>,
       \<lparr>Source = [CHR 0x0A], Pos = 1, Line = 2\<rparr>) \<and>
   Either Eof (Char CHR 0x0A) (initial [CHR 0x0A]) = Eof (initial [CHR 0x0A]) \<and>
   Char CHR 0x0A (initial [CHR 0x0A]) =
     Some (VByte CHR 0x0A, None, \<lparr>Source = [CHR 0x0A], Pos = 1, Line = 2\<rparr>)"
proof -
  have h: "0 \<le> Pos (initial [CHR 0x0A])" "Pos (initial [CHR 0x0A]) < int (length (Source (initial [CHR 0x0A])))"
    by (simp_all add: initial_def)
  from Eof_consumes_on_failure [OF h]
  obtain e st' where *: "Eof (initial [CHR 0x0A]) = Some (VNil, Some e, st')"
    "\<forall>q. Either Eof q (initial [CHR 0x0A]) = Some (VNil, Some e, st')"
    by blast
  have "Eof (initial [CHR 0x0A]) =
     Some (VNil,
       Some \<lparr>Reason = ''Expected end of file but got '' @ quote @ [CHR 0x0A] @ quote, ErrLine = 2\<rparr>,
       \<lparr>Source = [CHR 0x0A], Pos = 1, Line = 2\<rparr>)"
    by (simp add: Eof_def next_def initial_def trap_def fmt_c_def Let_def)
  moreover have "Char CHR 0x0A (initial [CHR 0x0A]) =
     Some (VByte CHR 0x0A, None, \<lparr>Source = [CHR 0x0A], Pos = 1, Line = 2\<rparr>)"
    by (simp add: Char_def next_def initial_def Let_def)
  ultimately show ?thesis using * by simp
qed

text \<open>
  Claim C5 as the code has it. \<open>Maybe p\<close> is \<open>Option\<close> of \<open>p\<close>, hence an
  \<open>Either\<close>: it succeeds with \<open>nil\<close> in the state \<open>p\<close> left when \<open>p\<close> succeeds, and
  also when \<open>p\<close> fails with the position where it was; when \<open>p\<close> fails with the
  position moved, \<open>Maybe p\<close> fails with the error of \<open>p\<close>.
\<close>

theorem Maybe_cases:
  "(p st = Some (x, None, st') \<longrightarrow> Maybe p st = Some (VNil, None, st')) \<and>
   (p st = Some (x, Some e, st') \<and> Pos st' = Pos st \<longrightarrow> Maybe p st = Some (VNil, None, st')) \<and>
   (p st = Some (x, Some e, st') \<and> Pos st' \<noteq> Pos st \<longrightarrow> Maybe p st = Some (VNil, Some e, st'))"
  by (simp add: Maybe_def Option_def Either_def Bind'_def Return_def)

theorem Maybe_cases_witness:
  "Maybe (Char CHR ''a'') (initial ''ab'') =
     Some (VNil, None, \<lparr>Source = ''ab'', Pos = 1, Line = 1\<rparr>) \<and>
   Maybe (Char CHR ''b'') (initial ''ab'') = Some (VNil, None, initial ''ab'') \<and>
   Maybe (Bind' (Char CHR ''a'') (Char CHR ''c'')) (initial ''ab'') =
     Some (VNil, Some \<lparr>Reason = ''Expected '' @ quote @ ''c'' @ quote, ErrLine = 1\<rparr>,
           \<lparr>Source = ''ab'', Pos = 1, Line = 1\<rparr>)"
proof -
  have a: "Char CHR ''a'' (initial ''ab'') =
      Some (VByte CHR ''a'', None, \<lparr>Source = ''ab'', Pos = 1, Line = 1\<rparr>)"
    by (simp add: Char_def next_def initial_def Let_def)
  have b: "Char CHR ''b'' (initial ''ab'') =
      Some (VNil, Some \<lparr>Reason = ''Expected '' @ quote @ ''b'' @ quote, ErrLine = 1\<rparr>, initial ''ab'') \<and>
      Pos (initial ''ab'') = Pos (initial ''ab'')"
    by (simp add: Char_def next_def initial_def trap_def fmt_c_def Let_def)
  have c: "Bind' (Char CHR ''a'') (Char CHR ''c'') (initial ''ab'') =
      Some (VNil, Some \<lparr>Reason = ''Expected '' @ quote @ ''c'' @ quote, ErrLine = 1\<rparr>,
            \<lparr>Source = ''ab'', Pos = 1, Line = 1\<rparr>) \<and>
      Pos \<lparr>Source = ''ab'', Pos = 1, Line = 1\<rparr> \<noteq> Pos (initial ''ab'')"
    by (simp add: Bind'_def Char_def next_def initial_def trap_def fmt_c_def Let_def)
  from a b c
    Maybe_cases [of "Char CHR ''a''" "initial ''ab''" "VByte CHR ''a''"
      "\<lparr>Source = ''ab'', Pos = 1, Line = 1\<rparr>"]
    Maybe_cases [of "Char CHR ''b''" "initial ''ab''" VNil "initial ''ab''"
      "\<lparr>Reason = ''Expected '' @ quote @ ''b'' @ quote, ErrLine = 1\<rparr>"]
    Maybe_cases [of "Bind' (Char CHR ''a'') (Char CHR ''c'')" "initial ''ab''" VNil
      "\<lparr>Source = ''ab'', Pos = 1, Line = 1\<rparr>"
      "\<lparr>Reason = ''Expected '' @ quote @ ''c'' @ quote, ErrLine = 1\<rparr>"]
  show ?thesis by blast
qed

text \<open>
  Claim C5 as stated fails: on the input \<open>ac\<close> the parser "\<open>a\<close> then \<open>b\<close>" consumes
  \<open>a\<close> and then fails, and \<open>Maybe\<close> of it returns that error instead of succeeding.
\<close>

theorem Maybe_fails_counterexample:
  "Maybe (Bind' (Char CHR ''a'') (Char CHR ''b'')) (initial ''ac'') =
     Some (VNil, Some \<lparr>Reason = ''Expected '' @ quote @ ''b'' @ quote, ErrLine = 1\<rparr>,
           \<lparr>Source = ''ac'', Pos = 1, Line = 1\<rparr>)"
  by (simp add: Maybe_def Option_def Either_def Bind'_def Return_def Char_def next_def
      initial_def trap_def fmt_c_def Let_def)

subsection \<open>The cursor primitive on the remaining input\<close>

lemma rest_Nil: "0 \<le> Pos st \<Longrightarrow> rest st = [] \<longleftrightarrow> \<not> Pos st < int (length (Source st))"
  by (auto simp: rest_def)

lemma rest_Cons:
  assumes "0 \<le> Pos st" and "rest st = b # bs"
  shows "Pos st < int (length (Source st))" and "Source st ! nat (Pos st) = b"
    and "rest (advance c st) = bs"
proof -
  have "\<not> length (Source st) \<le> nat (Pos st)"
    using assms(2) by (auto simp: rest_def)
  with assms(1) show lt: "Pos st < int (length (Source st))"
    by linarith
  then have n: "nat (Pos st) < length (Source st)" using assms(1) by linarith
  from Cons_nth_drop_Suc [OF n] assms(2)
  have "Source st ! nat (Pos st) = b \<and> drop (Suc (nat (Pos st))) (Source st) = bs"
    by (simp add: rest_def)
  moreover have "nat (Pos st + 1) = Suc (nat (Pos st))" using assms(1) by linarith
  ultimately show "Source st ! nat (Pos st) = b" and "rest (advance c st) = bs"
    by (simp_all add: rest_def advance_def)
qed

lemma next_end: "0 \<le> Pos st \<Longrightarrow> rest st = [] \<Longrightarrow> next pred st = Some (CHR 0x00, False, st)"
  by (simp add: next_def rest_Nil)

lemma next_miss:
  "0 \<le> Pos st \<Longrightarrow> rest st = b # bs \<Longrightarrow> \<not> pred b \<Longrightarrow> next pred st = Some (b, False, st)"
  using rest_Cons(1,2) [of st b bs] by (simp add: next_def)

lemma next_hit:
  "0 \<le> Pos st \<Longrightarrow> rest st = b # bs \<Longrightarrow> pred b \<Longrightarrow> next pred st = Some (b, True, advance b st)"
  using rest_Cons(1,2) [of st b bs] by (simp add: next_def advance_def Let_def)

subsection \<open>Exact strings\<close>

lemma String_loop_run:
  "0 \<le> Pos st \<Longrightarrow>
   String_loop s oldPos cs st =
     (if matched cs (rest st) = cs
      then Some (VStr s, None,
             st\<lparr>Pos := Pos st + int (length cs), Line := Line st + newlines cs\<rparr>)
      else Some (VNil,
             Some \<lparr>Reason = ''Expected '' @ quote @ s @ quote,
                   ErrLine = Line st + newlines (matched cs (rest st))\<rparr>,
             st\<lparr>Pos := oldPos, Line := Line st + newlines (matched cs (rest st))\<rparr>))"
proof (induction cs arbitrary: st)
  case Nil
  then show ?case by (simp add: newlines_def)
next
  case (Cons c cs)
  note IH = Cons.IH and pos = Cons.prems
  show ?case
  proof (cases "rest st")
    case Nil
    with pos show ?thesis
      by (simp add: next_end trap_def newlines_def)
  next
    case rst: (Cons b bs)
    show ?thesis
    proof (cases "b = c")
      case False
      with rst pos show ?thesis
        by (simp add: next_miss trap_def newlines_def)
    next
      case True
      have p: "0 \<le> Pos (advance c st)" using pos by (simp add: advance_def)
      have r: "rest (advance c st) = bs" using rest_Cons(3) [OF pos rst] .
      have step: "String_loop s oldPos (c # cs) st = String_loop s oldPos cs (advance c st)"
        using True rst pos by (simp add: next_hit)
      have m: "matched (c # cs) (rest st) = c # matched cs bs"
        using True rst by simp
      show ?thesis
        unfolding step IH [OF p] r m
        by (auto simp: advance_def newlines_def)
    qed
  qed
qed

lemma String_run:
  "0 \<le> Pos st \<Longrightarrow>
   String s st =
     (if matched s (rest st) = s
      then Some (VStr s, None,
             st\<lparr>Pos := Pos st + int (length s), Line := Line st + newlines s\<rparr>)
      else Some (VNil,
             Some \<lparr>Reason = ''Expected '' @ quote @ s @ quote,
                   ErrLine = Line st + newlines (matched s (rest st))\<rparr>,
             st\<lparr>Line := Line st + newlines (matched s (rest st))\<rparr>))"
  by (simp add: String_def String_loop_run)

lemma matched_take: "matched cs bs = cs \<longleftrightarrow> take (length cs) bs = cs"
  by (induction cs bs rule: matched.induct) auto

lemma length_matched: "length (matched cs bs) \<le> length cs"
  by (induction cs bs rule: matched.induct) auto

text \<open>
  Fewer than \<open>2 ^ 64\<close> line feeds, and at least one, move the line counter to another
  value.
\<close>

lemma newlines_neq_0:
  assumes "CHR 0x0A \<in> set cs" and "length cs < 2 ^ 64"
  shows "newlines cs \<noteq> 0"
proof -
  let ?k = "length (filter (\<lambda>c. c = CHR 0x0A) cs)"
  have "0 < ?k" using assms(1) by (auto simp: filter_empty_conv)
  moreover have "?k < 2 ^ 64" using assms(2) length_filter_le [of "\<lambda>c. c = CHR 0x0A" cs]
    by linarith
  ultimately have "\<not> 2 ^ 64 dvd ?k" by (auto dest: dvd_imp_le)
  then show ?thesis by (simp add: newlines_def word_of_nat_eq_0_iff)
qed

text \<open>
  Claim C6 (String atomicity). In every state (with a position that is an offset, not
  negative) \<open>String s\<close> either succeeds, returns \<open>s\<close> and has consumed exactly
  \<open>length s\<close> bytes, or fails with the position equal to the one before the call and the
  reason \<open>Expected 's'\<close>. It succeeds exactly when the remaining input starts with \<open>s\<close>.
\<close>

theorem String_atomicity:
  assumes "0 \<le> Pos st"
  shows "(take (length s) (rest st) = s \<and>
          (\<exists>st'. String s st = Some (VStr s, None, st') \<and>
                 Pos st' = Pos st + int (length s) \<and> Source st' = Source st)) \<or>
         (take (length s) (rest st) \<noteq> s \<and>
          (\<exists>e st'. String s st = Some (VNil, Some e, st') \<and>
                 Pos st' = Pos st \<and> Source st' = Source st \<and>
                 Reason e = ''Expected '' @ quote @ s @ quote))"
  by (simp add: String_run [OF assms] matched_take)

theorem String_atomicity_witness:
  "(\<exists>st'. String ''ab'' (initial ''abc'') = Some (VStr ''ab'', None, st') \<and> Pos st' = 2) \<and>
   (\<exists>e st'. String ''ax'' (initial ''abc'') = Some (VNil, Some e, st') \<and> Pos st' = 0 \<and>
        Reason e = ''Expected '' @ quote @ ''ax'' @ quote)"
proof -
  have h: "0 \<le> Pos (initial ''abc'')" by (simp add: initial_def)
  from String_atomicity [OF h, of "''ab''"] String_atomicity [OF h, of "''ax''"]
  show ?thesis by (auto simp: rest_def initial_def)
qed

text \<open>
  Claim C7. When \<open>Try p\<close> rolls back after \<open>p\<close> failed, or \<open>String s\<close> after a
  mismatch, only the position is put back: the line counter (and the source) of the
  resulting state are those the abandoned attempt left. For \<open>Try\<close> the line is the one
  \<open>p\<close> left; for \<open>String\<close> it is the line before the call incremented once for every
  line feed among the bytes matched before the mismatch (in the 64-bit arithmetic of the
  counter), hence not the line before the call as soon as one line feed was matched; a Go
  string has fewer than \<open>2 ^ 64\<close> bytes.
\<close>

theorem rollback_keeps_line:
  "(p st = Some (x, Some e, st') \<longrightarrow>
      (\<exists>st''. Try p st = Some (VNil, Some e, st'') \<and> Pos st'' = Pos st \<and>
          Line st'' = Line st' \<and> Source st'' = Source st' \<and>
          (Line st' \<noteq> Line st \<longrightarrow> Line st'' \<noteq> Line st))) \<and>
   (0 \<le> Pos st \<and> take (length s) (rest st) \<noteq> s \<longrightarrow>
      (\<exists>e st''. String s st = Some (VNil, Some e, st'') \<and> Pos st'' = Pos st \<and>
          Line st'' = Line st + newlines (matched s (rest st)) \<and>
          (CHR 0x0A \<in> set (matched s (rest st)) \<and> length s < 2 ^ 64 \<longrightarrow>
             Line st'' \<noteq> Line st)))"
proof (intro conjI impI)
  assume "p st = Some (x, Some e, st')"
  then have "Try p st = Some (VNil, Some e, st'\<lparr>Pos := Pos st\<rparr>)"
    by (simp add: Try_def)
  then show "\<exists>st''. Try p st = Some (VNil, Some e, st'') \<and> Pos st'' = Pos st \<and>
          Line st'' = Line st' \<and> Source st'' = Source st' \<and>
          (Line st' \<noteq> Line st \<longrightarrow> Line st'' \<noteq> Line st)"
    by simp
next
  assume a: "0 \<le> Pos st \<and> take (length s) (rest st) \<noteq> s"
  then have "String s st =
      Some (VNil,
        Some \<lparr>Reason = ''Expected '' @ quote @ s @ quote,
              ErrLine = Line st + newlines (matched s (rest st))\<rparr>,
        st\<lparr>Line := Line st + newlines (matched s (rest st))\<rparr>)"
    by (simp add: String_run matched_take)
  then show "\<exists>e st''. String s st = Some (VNil, Some e, st'') \<and> Pos st'' = Pos st \<and>
          Line st'' = Line st + newlines (matched s (rest st)) \<and>
          (CHR 0x0A \<in> set (matched s (rest st)) \<and> length s < 2 ^ 64 \<longrightarrow>
             Line st'' \<noteq> Line st)"
    using newlines_neq_0 [of "matched s (rest st)"] length_matched [of s "rest st"]
    by auto
qed

theorem rollback_keeps_line_witness:
  "(\<exists>st''. Try (Bind' (Char CHR 0x0A) (Char CHR ''b'')) (initial [CHR 0x0A, CHR ''c'']) =
       Some (VNil, Some \<lparr>Reason = ''Expected '' @ quote @ ''b'' @ quote, ErrLine = 2\<rparr>, st'') \<and>
       Pos st'' = 0 \<and> Line st'' = 2) \<and>
   (\<exists>e st''. String [CHR ''a'', CHR 0x0A, CHR ''b''] (initial [CHR ''a'', CHR 0x0A, CHR ''c'']) =
       Some (VNil, Some e, st'') \<and> Pos st'' = 0 \<and> Line st'' = 2) \<and>
   Line (initial [CHR 0x0A, CHR ''c'']) = 1 \<and> Line (initial [CHR ''a'', CHR 0x0A, CHR ''c'']) = 1"
proof -
  have f: "Bind' (Char CHR 0x0A) (Char CHR ''b'') (initial [CHR 0x0A, CHR ''c'']) =
      Some (VNil, Some \<lparr>Reason = ''Expected '' @ quote @ ''b'' @ quote, ErrLine = 2\<rparr>,
            \<lparr>Source = [CHR 0x0A, CHR ''c''], Pos = 1, Line = 2\<rparr>)"
    by (simp add: Bind'_def Char_def next_def initial_def trap_def fmt_c_def Let_def)
  have g: "0 \<le> Pos (initial [CHR ''a'', CHR 0x0A, CHR ''c'']) \<and>
      take (length [CHR ''a'', CHR 0x0A, CHR ''b'']) (rest (initial [CHR ''a'', CHR 0x0A, CHR ''c'']))
        \<noteq> [CHR ''a'', CHR 0x0A, CHR ''b'']"
    by (simp add: rest_def initial_def)
  have m: "newlines (matched [CHR ''a'', CHR 0x0A, CHR ''b''] (rest (initial [CHR ''a'', CHR 0x0A, CHR ''c'']))) = 1"
    by (simp add: rest_def initial_def newlines_def)
  note t = rollback_keeps_line [where p = "Bind' (Char CHR 0x0A) (Char CHR ''b'')"
      and st = "initial [CHR 0x0A, CHR ''c'']" and x = VNil
      and e = "\<lparr>Reason = ''Expected '' @ quote @ ''b'' @ quote, ErrLine = 2\<rparr>"
      and st' = "\<lparr>Source = [CHR 0x0A, CHR ''c''], Pos = 1, Line = 2\<rparr>",
      THEN conjunct1, rule_format, OF f]
  note u = rollback_keeps_line [where st = "initial [CHR ''a'', CHR 0x0A, CHR ''c'']"
      and s = "[CHR ''a'', CHR 0x0A, CHR ''b'']", THEN conjunct2, rule_format, OF g]
  from t u m show ?thesis by (auto simp: initial_def)
qed

subsection \<open>Repetition\<close>

lemma tail_VList: "tail x (VList ys) st = Some (VList (x # ys), None, st)"
  by (simp add: tail_def Return_def)

lemma Many1_first_fails:
  "p st = Some (x, Some e, st') \<Longrightarrow> Many1 (Suc n) p st = Some (VNil, Some e, st')"
  by (simp add: Bind_def)

lemma Many1_first_succeeds:
  "p st = Some (x, None, st1) \<Longrightarrow> Many1 (Suc n) p st = Bind (Many n p) (tail x) st1"
  by (simp add: Bind_def)

lemma Many_fails_in_place:
  "Many1 n p st = Some (x, Some e, st') \<Longrightarrow> Pos st' = Pos st \<Longrightarrow>
   Many n p st = Some (VList [], None, st')"
  by (simp add: Option_def Either_def Return_def)

lemma Many_fails_moved:
  "Many1 n p st = Some (x, Some e, st') \<Longrightarrow> Pos st' \<noteq> Pos st \<Longrightarrow>
   Many n p st = Some (VNil, Some e, st')"
  by (simp add: Option_def Either_def Return_def)

lemma Many_succeeds:
  "Many1 n p st = Some (x, None, st') \<Longrightarrow> Many n p st = Some (x, None, st')"
  by (simp add: Option_def Either_def Return_def)

text \<open>
  With more fuel than bytes remain, \<open>Many\<close> of a parser with the three properties
  returns a sequence.
\<close>

lemma Many_total:
  assumes fp: "fails_in_place p" and ad: "advances p" and rt: "returns p"
  shows "0 \<le> Pos st \<Longrightarrow> remaining st < n \<Longrightarrow>
         \<exists>xs st'. Many n p st = Some (VList xs, None, st')"
proof (induction n arbitrary: st)
  case 0
  then show ?case by simp
next
  case (Suc n)
  from rt Suc.prems(1) obtain x err st1 where r: "p st = Some (x, err, st1)"
    unfolding returns_def by (metis option.exhaust prod_cases3)
  show ?case
  proof (cases err)
    case (Some e)
    with r fp have "Pos st1 = Pos st" unfolding fails_in_place_def by blast
    with Many_fails_in_place [OF Many1_first_fails [of p st x e st1 n]] r Some
    show ?thesis by blast
  next
    case None
    with r ad have a: "Source st1 = Source st" "Pos st < Pos st1"
      "Pos st1 \<le> int (length (Source st))"
      unfolding advances_def by blast+
    then have "0 \<le> Pos st1" and "remaining st1 < n"
      using Suc.prems by (simp_all add: remaining_def)
    from Suc.IH [OF this] obtain ys st2 where m: "Many n p st1 = Some (VList ys, None, st2)"
      by blast
    have "Many1 (Suc n) p st = Some (VList (x # ys), None, st2)"
      using r None m by (simp add: Many1_first_succeeds Bind_def tail_VList)
    from Many_succeeds [OF this] show ?thesis by blast
  qed
qed

text \<open>
  For such a parser \<open>Many1\<close> returns as well, and fails exactly when the first
  application does.
\<close>

lemma Many1_total:
  assumes fp: "fails_in_place p" and ad: "advances p" and rt: "returns p"
    and ps: "0 \<le> Pos st" and fu: "remaining st < n"
  shows "\<exists>v err st'. Many1 n p st = Some (v, err, st') \<and>
           (err \<noteq> None \<longleftrightarrow> (\<exists>x e st1. p st = Some (x, Some e, st1)))"
proof -
  from fu obtain m where n: "n = Suc m" by (cases n) auto
  from rt ps obtain x err st1 where r: "p st = Some (x, err, st1)"
    unfolding returns_def by (metis option.exhaust prod_cases3)
  show ?thesis
  proof (cases err)
    case (Some e)
    with r Many1_first_fails [of p st x e st1 m] show ?thesis
      unfolding n by auto
  next
    case None
    with r ad have a: "Source st1 = Source st" "Pos st < Pos st1"
      "Pos st1 \<le> int (length (Source st))"
      unfolding advances_def by blast+
    then have "0 \<le> Pos st1" and "remaining st1 < m"
      using ps fu unfolding n by (simp_all add: remaining_def)
    from Many_total [OF fp ad rt this] obtain ys st2
      where "Many m p st1 = Some (VList ys, None, st2)" by blast
    then have "Many1 (Suc m) p st = Some (VList (x # ys), None, st2)"
      using r None by (simp add: Many1_first_succeeds Bind_def tail_VList)
    with r None show ?thesis unfolding n by simp
  qed
qed

text \<open>The single-byte matcher \<open>Char c\<close> has the three properties.\<close>

lemma Char_well_behaved: "fails_in_place (Char c)" "advances (Char c)" "returns (Char c)"
  unfolding fails_in_place_def advances_def returns_def
  by (auto simp: Char_def next_def Let_def split: if_splits)

lemma Bind_error:
  "Bind p f st = Some (v, Some e, st') \<Longrightarrow>
   (\<exists>x. p st = Some (x, Some e, st')) \<or>
   (\<exists>x st1. p st = Some (x, None, st1) \<and> f x st1 = Some (v, Some e, st'))"
  by (auto simp: Bind_def split: option.splits if_splits)

lemma tail_no_error: "tail x w st \<noteq> Some (v, Some e, st')"
  by (simp add: tail_def Return_def split: val.splits)

lemma Option_error:
  "Option d p st = Some (v, Some e, st') \<Longrightarrow>
   (\<exists>x. p st = Some (x, Some e, st')) \<and> Pos st' \<noteq> Pos st"
  by (auto simp: Option_def Either_def Return_def split: option.splits if_splits)

text \<open>\<open>Many\<close> of a parser whose failures leave the position alone returns no error.\<close>

lemma Many_no_error:
  assumes fp: "fails_in_place p"
  shows "Many n p st \<noteq> Some (v, Some e, st')"
proof (induction n arbitrary: st v e st')
  case 0
  show ?case by (simp add: Option_def Either_def)
next
  case (Suc n)
  show ?case
  proof
    assume "Many (Suc n) p st = Some (v, Some e, st')"
    then have "Option (VList []) (Many1 (Suc n) p) st = Some (v, Some e, st')" by simp
    from Option_error [OF this] obtain x
      where m: "Many1 (Suc n) p st = Some (x, Some e, st')" and mv: "Pos st' \<noteq> Pos st"
      by blast
    from m have "Bind p (\<lambda>x. Bind (Many n p) (tail x)) st = Some (x, Some e, st')" by simp
    from Bind_error [OF this] show False
    proof
      assume "\<exists>y. p st = Some (y, Some e, st')"
      with fp mv show False unfolding fails_in_place_def by blast
    next
      assume "\<exists>y st1. p st = Some (y, None, st1) \<and>
                Bind (Many n p) (tail y) st1 = Some (x, Some e, st')"
      then obtain y st1 where "Bind (Many n p) (tail y) st1 = Some (x, Some e, st')"
        by blast
      from Bind_error [OF this] Suc.IH tail_no_error show False by blast
    qed
  qed
qed

lemma Many1_error_is_first:
  assumes fp: "fails_in_place p" and m: "Many1 n p st = Some (v, Some e, st')"
  shows "\<exists>x. p st = Some (x, Some e, st')"
proof -
  from m obtain k where n: "n = Suc k" by (cases n) auto
  from m have "Bind p (\<lambda>x. Bind (Many k p) (tail x)) st = Some (v, Some e, st')"
    unfolding n by simp
  from Bind_error [OF this] show ?thesis
  proof
    assume "\<exists>y st1. p st = Some (y, None, st1) \<and>
              Bind (Many k p) (tail y) st1 = Some (v, Some e, st')"
    then obtain y st1 where "Bind (Many k p) (tail y) st1 = Some (v, Some e, st')"
      by blast
    from Bind_error [OF this] Many_no_error [OF fp] tail_no_error show ?thesis by blast
  qed
qed

lemma Many1_success_is_first:
  "Many1 n p st = Some (v, None, st') \<Longrightarrow> \<exists>x st1. p st = Some (x, None, st1)"
  by (cases n) (auto simp: Bind_def split: option.splits if_splits)

text \<open>
  Claim C3 as the code has it. \<open>Many p\<close> is \<open>Option\<close> of \<open>Many1 p\<close>, hence an
  \<open>Either\<close>. If \<open>p\<close> fails at once with the position where it was, \<open>Many p\<close> succeeds
  with the empty sequence. If every failure of \<open>p\<close> leaves the position where it was,
  \<open>Many p\<close> never returns an error; if moreover every success of \<open>p\<close> consumes input of
  the source and \<open>p\<close> itself returns, then \<open>Many p\<close> succeeds with a sequence, given
  more fuel than bytes remain.
\<close>

theorem Many_succeeds_when_failures_consume_nothing:
  "(p st = Some (x, Some e, st') \<and> Pos st' = Pos st \<longrightarrow>
      Many (Suc n) p st = Some (VList [], None, st')) \<and>
   (fails_in_place p \<longrightarrow> Many n p st \<noteq> Some (v, Some e, st')) \<and>
   (fails_in_place p \<and> advances p \<and> returns p \<and> 0 \<le> Pos st \<and> remaining st < n \<longrightarrow>
      (\<exists>xs st''. Many n p st = Some (VList xs, None, st'')))"
proof (intro conjI impI)
  assume "p st = Some (x, Some e, st') \<and> Pos st' = Pos st"
  then show "Many (Suc n) p st = Some (VList [], None, st')"
    using Many_fails_in_place [OF Many1_first_fails] by blast
next
  assume "fails_in_place p"
  then show "Many n p st \<noteq> Some (v, Some e, st')" by (rule Many_no_error)
next
  assume "fails_in_place p \<and> advances p \<and> returns p \<and> 0 \<le> Pos st \<and> remaining st < n"
  then show "\<exists>xs st''. Many n p st = Some (VList xs, None, st'')"
    using Many_total by blast
qed

theorem Many_succeeds_when_failures_consume_nothing_witness:
  "Many (Suc 0) (Char CHR ''a'') (initial ''b'') = Some (VList [], None, initial ''b'') \<and>
   (\<forall>v e st'. Many 4 (Char CHR ''a'') (initial ''aab'') \<noteq> Some (v, Some e, st')) \<and>
   (\<exists>xs st''. Many 4 (Char CHR ''a'') (initial ''aab'') = Some (VList xs, None, st'')) \<and>
   Many 4 (Char CHR ''a'') (initial ''aab'') =
     Some (VList [VByte CHR ''a'', VByte CHR ''a''], None, \<lparr>Source = ''aab'', Pos = 2, Line = 1\<rparr>)"
proof -
  have f: "Char CHR ''a'' (initial ''b'') =
      Some (VNil, Some \<lparr>Reason = ''Expected '' @ quote @ ''a'' @ quote, ErrLine = 1\<rparr>, initial ''b'') \<and>
      Pos (initial ''b'') = Pos (initial ''b'')"
    by (simp add: Char_def next_def initial_def trap_def fmt_c_def Let_def)
  have h: "fails_in_place (Char CHR ''a'') \<and> advances (Char CHR ''a'') \<and> returns (Char CHR ''a'') \<and>
      0 \<le> Pos (initial ''aab'') \<and> remaining (initial ''aab'') < 4"
    by (simp add: Char_well_behaved) (simp add: initial_def remaining_def)
  note a = Many_succeeds_when_failures_consume_nothing [where p = "Char CHR ''a''"
      and st = "initial ''b''" and n = 0, THEN conjunct1, rule_format, OF f]
  note b = Many_succeeds_when_failures_consume_nothing [where p = "Char CHR ''a''"
      and st = "initial ''aab''" and n = 4, THEN conjunct2, THEN conjunct1, rule_format,
      OF conjunct1 [OF h]]
  note c = Many_succeeds_when_failures_consume_nothing [where p = "Char CHR ''a''"
      and st = "initial ''aab''" and n = 4, THEN conjunct2, THEN conjunct2, rule_format, OF h]
  have v: "Many 4 (Char CHR ''a'') (initial ''aab'') =
     Some (VList [VByte CHR ''a'', VByte CHR ''a''], None, \<lparr>Source = ''aab'', Pos = 2, Line = 1\<rparr>)"
    by code_simp
  from a b c v show ?thesis by blast
qed

text \<open>
  Claim C3 as stated fails: on the input \<open>ac\<close> the parser "\<open>a\<close> then \<open>b\<close>" consumes
  \<open>a\<close> before it fails, and \<open>Many\<close> of it returns that error (with fuel 2, hence
  with any greater fuel, see \<open>Many_fuel\<close> below).
\<close>

theorem Many_fails_counterexample:
  "Many 2 (Bind' (Char CHR ''a'') (Char CHR ''b'')) (initial ''ac'') =
     Some (VNil, Some \<lparr>Reason = ''Expected '' @ quote @ ''b'' @ quote, ErrLine = 1\<rparr>,
           \<lparr>Source = ''ac'', Pos = 1, Line = 1\<rparr>)"
  by code_simp

text \<open>
  Claim C4 as the code has it. When the first application of \<open>p\<close> fails, \<open>Many1 p\<close>
  fails with the error of \<open>p\<close> in the state \<open>p\<close> left. If every failure of \<open>p\<close> leaves
  the position where it was, a run of \<open>Many1 p\<close> that returns fails exactly when the first
  application of \<open>p\<close> fails; and it does return, given more fuel than bytes remain, if
  moreover every success of \<open>p\<close> consumes input of the source and \<open>p\<close> itself returns.
\<close>

theorem Many1_fails_iff_first_fails:
  "(p st = Some (x, Some e, st') \<longrightarrow> Many1 (Suc n) p st = Some (VNil, Some e, st')) \<and>
   (fails_in_place p \<and> Many1 n p st = Some (v, err, st'') \<longrightarrow>
      (err \<noteq> None \<longleftrightarrow> (\<exists>y e1 st1. p st = Some (y, Some e1, st1)))) \<and>
   (fails_in_place p \<and> advances p \<and> returns p \<and> 0 \<le> Pos st \<and> remaining st < n \<longrightarrow>
      (\<exists>w err1 st2. Many1 n p st = Some (w, err1, st2) \<and>
         (err1 \<noteq> None \<longleftrightarrow> (\<exists>y e1 st1. p st = Some (y, Some e1, st1)))))"
proof (intro conjI impI)
  assume "p st = Some (x, Some e, st')"
  then show "Many1 (Suc n) p st = Some (VNil, Some e, st')" by (rule Many1_first_fails)
next
  assume a: "fails_in_place p \<and> Many1 n p st = Some (v, err, st'')"
  show "err \<noteq> None \<longleftrightarrow> (\<exists>y e1 st1. p st = Some (y, Some e1, st1))"
  proof (cases err)
    case None
    with a Many1_success_is_first [of n p st v st''] show ?thesis by auto
  next
    case (Some e2)
    with a Many1_error_is_first [of p n st v e2 st''] show ?thesis by auto
  qed
next
  assume "fails_in_place p \<and> advances p \<and> returns p \<and> 0 \<le> Pos st \<and> remaining st < n"
  then show "\<exists>w err1 st2. Many1 n p st = Some (w, err1, st2) \<and>
         (err1 \<noteq> None \<longleftrightarrow> (\<exists>y e1 st1. p st = Some (y, Some e1, st1)))"
    using Many1_total by blast
qed

theorem Many1_fails_iff_first_fails_witness:
  "Many1 (Suc 0) (Char CHR ''a'') (initial ''b'') =
     Some (VNil, Some \<lparr>Reason = ''Expected '' @ quote @ ''a'' @ quote, ErrLine = 1\<rparr>, initial ''b'') \<and>
   \<not> (\<exists>y e1 st1. Char CHR ''a'' (initial ''aab'') = Some (y, Some e1, st1)) \<and>
   (\<exists>w err1 st2. Many1 4 (Char CHR ''a'') (initial ''aab'') = Some (w, err1, st2) \<and>
      (err1 \<noteq> None \<longleftrightarrow> (\<exists>y e1 st1. Char CHR ''a'' (initial ''aab'') = Some (y, Some e1, st1)))) \<and>
   Many1 4 (Char CHR ''a'') (initial ''aab'') =
     Some (VList [VByte CHR ''a'', VByte CHR ''a''], None, \<lparr>Source = ''aab'', Pos = 2, Line = 1\<rparr>)"
proof -
  have f: "Char CHR ''a'' (initial ''b'') =
      Some (VNil, Some \<lparr>Reason = ''Expected '' @ quote @ ''a'' @ quote, ErrLine = 1\<rparr>, initial ''b'')"
    by (simp add: Char_def next_def initial_def trap_def fmt_c_def Let_def)
  have v: "Many1 4 (Char CHR ''a'') (initial ''aab'') =
     Some (VList [VByte CHR ''a'', VByte CHR ''a''], None, \<lparr>Source = ''aab'', Pos = 2, Line = 1\<rparr>)"
    by code_simp
  have g: "fails_in_place (Char CHR ''a'') \<and>
      Many1 4 (Char CHR ''a'') (initial ''aab'') =
        Some (VList [VByte CHR ''a'', VByte CHR ''a''], None, \<lparr>Source = ''aab'', Pos = 2, Line = 1\<rparr>)"
    using v by (simp add: Char_well_behaved)
  have h: "fails_in_place (Char CHR ''a'') \<and> advances (Char CHR ''a'') \<and> returns (Char CHR ''a'') \<and>
      0 \<le> Pos (initial ''aab'') \<and> remaining (initial ''aab'') < 4"
    by (simp add: Char_well_behaved) (simp add: initial_def remaining_def)
  note a = Many1_fails_iff_first_fails [where p = "Char CHR ''a''" and st = "initial ''b''"
      and n = 0, THEN conjunct1, rule_format, OF f]
  note b = Many1_fails_iff_first_fails [where p = "Char CHR ''a''" and st = "initial ''aab''"
      and n = 4, THEN conjunct2, THEN conjunct1, rule_format, OF g]
  note c = Many1_fails_iff_first_fails [where p = "Char CHR ''a''" and st = "initial ''aab''"
      and n = 4, THEN conjunct2, THEN conjunct2, rule_format, OF h]
  from a b c v show ?thesis by blast
qed

text \<open>
  Claim C4 as stated fails: on the input \<open>abac\<close> the first application of "\<open>a\<close> then
  \<open>b\<close>" succeeds, the second consumes \<open>a\<close> and fails, and \<open>Many1\<close> returns that error
  (with fuel 3, hence with any greater fuel, see \<open>Many1_fuel\<close> below).
\<close>

theorem Many1_fails_after_first_success_counterexample:
  "Bind' (Char CHR ''a'') (Char CHR ''b'') (initial ''abac'') =
     Some (VByte CHR ''b'', None, \<lparr>Source = ''abac'', Pos = 2, Line = 1\<rparr>) \<and>
   Many1 3 (Bind' (Char CHR ''a'') (Char CHR ''b'')) (initial ''abac'') =
     Some (VNil, Some \<lparr>Reason = ''Expected '' @ quote @ ''b'' @ quote, ErrLine = 1\<rparr>,
           \<lparr>Source = ''abac'', Pos = 3, Line = 1\<rparr>)"
  by code_simp

text \<open>
  Claim C8. \<open>ManyTil AnyChar (String ''STOP'')\<close> on the input \<open>abcSTOP\<close>, from position
  0, succeeds with the sequence \<open>a\<close>, \<open>b\<close>, \<open>c\<close> and leaves the cursor at position 7,
  behind the terminator. Four nested runs are needed; any fuel from four on gives this
  result.
\<close>

theorem ManyTil_abcSTOP:
  "ManyTil (4 + n) AnyChar (String ''STOP'') (initial ''abcSTOP'') =
     Some (VList [VByte CHR ''a'', VByte CHR ''b'', VByte CHR ''c''], None,
           \<lparr>Source = ''abcSTOP'', Pos = 7, Line = 1\<rparr>) \<and>
   Parse ''abcSTOP'' (ManyTil (4 + n) AnyChar (String ''STOP'')) =
     Some (VList [VByte CHR ''a'', VByte CHR ''b'', VByte CHR ''c''], None)"
proof -
  have n: "4 + n = Suc (Suc (Suc (Suc n)))" by simp
  have "ManyTil (4 + n) AnyChar (String ''STOP'') (initial ''abcSTOP'') =
     Some (VList [VByte CHR ''a'', VByte CHR ''b'', VByte CHR ''c''], None,
           \<lparr>Source = ''abcSTOP'', Pos = 7, Line = 1\<rparr>)"
    unfolding n
    by (simp add: Either_def Try_def Bind_def Bind'_def Return_def tail_def AnyChar_def
        String_def next_def initial_def trap_def Let_def)
  then show ?thesis by (simp add: Parse_def)
qed

subsection \<open>Separated lists\<close>

lemma interleaved_length: "interleaved p sep st xs k st' \<Longrightarrow> length xs = Suc k"
  by (induction rule: interleaved.induct) simp_all

lemma Bind_success:
  "Bind p f st = Some (v, None, st') \<Longrightarrow>
   \<exists>x st1. p st = Some (x, None, st1) \<and> f x st1 = Some (v, None, st')"
  by (auto simp: Bind_def split: option.splits if_splits)

lemma Bind'_success:
  "Bind' p q st = Some (v, None, st') \<Longrightarrow>
   \<exists>x st1. p st = Some (x, None, st1) \<and> q st1 = Some (v, None, st')"
  by (auto simp: Bind'_def split: option.splits if_splits)

lemma tail_success:
  "tail x w st = Some (v, None, st') \<Longrightarrow> \<exists>ys. w = VList ys \<and> v = VList (x # ys) \<and> st' = st"
  by (auto simp: tail_def Return_def split: val.splits)

lemma Option_success:
  "Option d p st = Some (v, None, st') \<Longrightarrow>
   p st = Some (v, None, st') \<or>
   (\<exists>x e. p st = Some (x, Some e, st') \<and> Pos st' = Pos st \<and> v = d)"
  by (auto simp: Option_def Either_def Return_def split: option.splits if_splits)

text \<open>
  A successful \<open>Many\<close> of "\<open>sep\<close> then \<open>p\<close>" after one element: the values, with that
  element in front, come from an interleaved run, and the position at the end is the one
  that run reached.
\<close>

lemma Many_sep_interleaved:
  "Many n (Bind' sep p) st1 = Some (v, None, st') \<Longrightarrow> p st = Some (x, None, st1) \<Longrightarrow>
   \<exists>ys st_last. v = VList ys \<and> interleaved p sep st (x # ys) (length ys) st_last \<and>
      Pos st' = Pos st_last"
proof (induction n arbitrary: st st1 x v st')
  case 0
  then show ?case by (simp add: Option_def Either_def)
next
  case (Suc n)
  let ?q = "Bind' sep p"
  from Suc.prems(1) have "Option (VList []) (Many1 (Suc n) ?q) st1 = Some (v, None, st')"
    by simp
  from Option_success [OF this] show ?case
  proof
    assume "\<exists>z e. Many1 (Suc n) ?q st1 = Some (z, Some e, st') \<and> Pos st' = Pos st1 \<and> v = VList []"
    then have "v = VList []" and "Pos st' = Pos st1" by blast+
    moreover from Suc.prems(2) have "interleaved p sep st [x] 0 st1" by (rule single)
    ultimately show ?thesis by auto
  next
    assume "Many1 (Suc n) ?q st1 = Some (v, None, st')"
    then have "Bind ?q (\<lambda>y. Bind (Many n ?q) (tail y)) st1 = Some (v, None, st')" by simp
    from Bind_success [OF this] obtain y st2
      where q: "?q st1 = Some (y, None, st2)"
        and b: "Bind (Many n ?q) (tail y) st2 = Some (v, None, st')"
      by blast
    from Bind'_success [OF q] obtain z st1'
      where s: "sep st1 = Some (z, None, st1')" and p: "p st1' = Some (y, None, st2)"
      by blast
    from Bind_success [OF b] obtain w st3
      where m: "Many n ?q st2 = Some (w, None, st3)" and t: "tail y w st3 = Some (v, None, st')"
      by blast
    from Suc.IH [OF m p] obtain ys st_last
      where w: "w = VList ys" and i: "interleaved p sep st1' (y # ys) (length ys) st_last"
        and e: "Pos st3 = Pos st_last"
      by blast
    from tail_success [OF t] w have v: "v = VList (y # ys)" and "st' = st3" by auto
    moreover from more [OF Suc.prems(2) s i]
    have "interleaved p sep st (x # y # ys) (length (y # ys)) st_last" by simp
    ultimately show ?thesis using e by blast
  qed
qed

text \<open>
  Claim C9 (SepBy law). Whenever \<open>SepBy1 p sep\<close> succeeds, its value is a sequence of
  some length \<open>k + 1\<close> that comes from an interleaved run with exactly \<open>k\<close> successful
  separators, one between every two consecutive elements, and the final position is the
  one reached after the last element: no separator behind it is consumed. On the input
  \<open>1,2,3\<close>, digits separated by commas give the sequence \<open>1\<close>, \<open>2\<close>, \<open>3\<close>.
\<close>

theorem SepBy1_law:
  "(SepBy1 n p sep st = Some (v, None, st') \<longrightarrow>
      (\<exists>xs k st_last. v = VList xs \<and> length xs = Suc k \<and>
          interleaved p sep st xs k st_last \<and> Pos st' = Pos st_last)) \<and>
   Parse ''1,2,3'' (SepBy1 (3 + m) Digit (Char CHR '','')) =
      Some (VList [VByte CHR ''1'', VByte CHR ''2'', VByte CHR ''3''], None)"
proof (intro conjI impI)
  assume "SepBy1 n p sep st = Some (v, None, st')"
  then have "Bind p (\<lambda>x. Bind (Many n (Bind' sep p)) (tail x)) st = Some (v, None, st')"
    by (simp add: SepBy1_def)
  from Bind_success [OF this] obtain x st1
    where p: "p st = Some (x, None, st1)"
      and b: "Bind (Many n (Bind' sep p)) (tail x) st1 = Some (v, None, st')"
    by blast
  from Bind_success [OF b] obtain w st2
    where m: "Many n (Bind' sep p) st1 = Some (w, None, st2)"
      and t: "tail x w st2 = Some (v, None, st')"
    by blast
  from Many_sep_interleaved [OF m p] obtain ys st_last
    where w: "w = VList ys" and i: "interleaved p sep st (x # ys) (length ys) st_last"
      and e: "Pos st2 = Pos st_last"
    by blast
  from tail_success [OF t] w have "v = VList (x # ys)" and "st' = st2" by auto
  with i e show "\<exists>xs k st_last. v = VList xs \<and> length xs = Suc k \<and>
          interleaved p sep st xs k st_last \<and> Pos st' = Pos st_last"
    by auto
next
  have n: "3 + m = Suc (Suc (Suc m))" by simp
  show "Parse ''1,2,3'' (SepBy1 (3 + m) Digit (Char CHR '','')) =
      Some (VList [VByte CHR ''1'', VByte CHR ''2'', VByte CHR ''3''], None)"
    unfolding n
    by (simp add: Parse_def SepBy1_def Option_def Either_def Bind_def Bind'_def Return_def
        tail_def Digit_def OneOf_def Char_def next_def initial_def trap_def Let_def)
qed

theorem SepBy1_law_witness:
  "SepBy1 3 Digit (Char CHR '','') (initial ''1,2,3'') =
     Some (VList [VByte CHR ''1'', VByte CHR ''2'', VByte CHR ''3''], None,
           \<lparr>Source = ''1,2,3'', Pos = 5, Line = 1\<rparr>) \<and>
   (\<exists>st_last. interleaved Digit (Char CHR '','') (initial ''1,2,3'')
        [VByte CHR ''1'', VByte CHR ''2'', VByte CHR ''3''] 2 st_last \<and> Pos st_last = 5)"
proof -
  have v: "SepBy1 3 Digit (Char CHR '','') (initial ''1,2,3'') =
     Some (VList [VByte CHR ''1'', VByte CHR ''2'', VByte CHR ''3''], None,
           \<lparr>Source = ''1,2,3'', Pos = 5, Line = 1\<rparr>)"
    by code_simp
  from SepBy1_law [where m = 0, THEN conjunct1, rule_format, OF v]
  obtain xs k st_last where "VList [VByte CHR ''1'', VByte CHR ''2'', VByte CHR ''3''] = VList xs"
    "length xs = Suc k" "interleaved Digit (Char CHR '','') (initial ''1,2,3'') xs k st_last"
    "Pos \<lparr>Source = ''1,2,3'', Pos = 5, Line = 1\<rparr> = Pos st_last"
    by blast
  then have "interleaved Digit (Char CHR '','') (initial ''1,2,3'')
        [VByte CHR ''1'', VByte CHR ''2'', VByte CHR ''3''] 2 st_last \<and> Pos st_last = 5"
    by (auto simp: numeral_2_eq_2)
  with v show ?thesis by blast
qed

subsection \<open>Results do not depend on the fuel\<close>

lemma below_refl: "below p p"
  by (simp add: below_def)

lemma belowD: "below p q \<Longrightarrow> p st = Some r \<Longrightarrow> q st = Some r"
  unfolding below_def by blast

lemma below_trans: "below p q \<Longrightarrow> below q r \<Longrightarrow> below p r"
  unfolding below_def by blast

lemma below_Bind:
  assumes "below p p'" and "\<And>x. below (f x) (f' x)"
  shows "below (Bind p f) (Bind p' f')"
  unfolding below_def
proof (intro allI impI)
  fix st r
  assume a: "Bind p f st = Some r"
  then obtain x err st1 where p: "p st = Some (x, err, st1)"
    by (auto simp: Bind_def split: option.splits)
  with assms(1) have p': "p' st = Some (x, err, st1)" by (rule belowD)
  show "Bind p' f' st = Some r"
  proof (cases err)
    case None
    with a p have "f x st1 = Some r" by (simp add: Bind_def)
    with assms(2) have "f' x st1 = Some r" by (rule belowD)
    with p' None show ?thesis by (simp add: Bind_def)
  next
    case (Some e)
    with a p p' show ?thesis by (simp add: Bind_def)
  qed
qed

lemma below_Either:
  assumes "below p p'" and "below q q'"
  shows "below (Either p q) (Either p' q')"
  unfolding below_def
proof (intro allI impI)
  fix st r
  assume a: "Either p q st = Some r"
  then obtain x err st1 where p: "p st = Some (x, err, st1)"
    by (auto simp: Either_def split: option.splits)
  with assms(1) have p': "p' st = Some (x, err, st1)" by (rule belowD)
  show "Either p' q' st = Some r"
  proof (cases "err \<noteq> None \<and> Pos st1 = Pos st")
    case True
    with a p have "q st1 = Some r" by (auto simp: Either_def)
    with assms(2) have "q' st1 = Some r" by (rule belowD)
    with p' True show ?thesis by (auto simp: Either_def)
  next
    case False
    with a p p' show ?thesis by (auto simp: Either_def)
  qed
qed

lemma below_Many_Suc: "below (Many1 n p) (Many1 (Suc n) p) \<and> below (Many n p) (Many (Suc n) p)"
proof (induction n)
  case 0
  show ?case by (simp add: below_def Option_def Either_def)
next
  case (Suc n)
  have 1: "below (Many1 (Suc n) p) (Many1 (Suc (Suc n)) p)"
    using Suc by (simp add: below_Bind below_refl)
  then have "below (Many (Suc n) p) (Many (Suc (Suc n)) p)"
    by (simp add: Option_def below_Either below_refl del: Many1.simps)
  with 1 show ?case by simp
qed

lemma below_Many_add: "below (Many1 n p) (Many1 (n + k) p) \<and> below (Many n p) (Many (n + k) p)"
proof (induction k)
  case 0
  show ?case by (simp add: below_refl del: Many.simps)
next
  case (Suc k)
  with below_Many_Suc [of "n + k" p] show ?case
    by (auto intro: below_trans simp del: Many.simps Many1.simps)
qed

text \<open>
  Once \<open>Many1\<close>, \<open>Many\<close>, \<open>SepBy1\<close> or \<open>ManyTil\<close> return with some fuel, they return
  the same with any greater fuel.
\<close>

lemma Many1_fuel: "Many1 n p st = Some r \<Longrightarrow> Many1 (n + k) p st = Some r"
  using below_Many_add [of n p k] unfolding below_def by blast

lemma Many_fuel: "Many n p st = Some r \<Longrightarrow> Many (n + k) p st = Some r"
  using below_Many_add [of n p k] unfolding below_def by blast

lemma SepBy1_fuel: "SepBy1 n p sep st = Some r \<Longrightarrow> SepBy1 (n + k) p sep st = Some r"
proof -
  have "below (SepBy1 n p sep) (SepBy1 (n + k) p sep)"
    unfolding SepBy1_def
    using below_Many_add [of n "Bind' sep p" k]
    by (intro below_Bind below_refl) simp
  then show "SepBy1 n p sep st = Some r \<Longrightarrow> SepBy1 (n + k) p sep st = Some r"
    unfolding below_def by blast
qed

lemma below_ManyTil_Suc: "below (ManyTil n p end) (ManyTil (Suc n) p end)"
proof (induction n)
  case 0
  show ?case by (simp add: below_def)
next
  case (Suc n)
  let ?stop = "Bind' (Try end) (Return (VList []))"
  have "below (Either ?stop (Bind p (\<lambda>x. Bind (ManyTil n p end) (tail x))))
              (Either ?stop (Bind p (\<lambda>x. Bind (ManyTil (Suc n) p end) (tail x))))"
    by (intro below_Either below_Bind below_refl Suc)
  then show ?case by (simp add: Let_def)
qed

lemma ManyTil_fuel: "ManyTil n p end st = Some r \<Longrightarrow> ManyTil (n + k) p end st = Some r"
proof (induction k)
  case 0
  then show ?case by simp
next
  case (Suc k)
  then have "ManyTil (n + k) p end st = Some r" by simp
  from belowD [OF below_ManyTil_Suc this] show ?case by simp
qed

text \<open>
  A parser that succeeds without consuming makes \<open>Many1\<close> and \<open>Many\<close> run forever:
  no amount of fuel gives a result. This is why the lemmas above ask that a success
  consumes input.
\<close>

lemma Many_Return_never_returns:
  "Many1 n (Return x) st = None \<and> Many n (Return x) st = None"
proof (induction n arbitrary: st)
  case 0
  show ?case by (simp add: Option_def Either_def)
next
  case (Suc n)
  have "Many1 (Suc n) (Return x) st = None"
    using Suc by (simp add: Bind_def Return_def)
  then show ?case by (simp add: Option_def Either_def)
qed

subsection \<open>The literal scenarios of the specification\<close>

text \<open>
  One or more lowercase letters on \<open>abc123\<close>; end of input on the empty input; the
  character \<open>y\<close> on \<open>x\<close>; one or more digits on the empty input.
\<close>

lemma scenario_lowercase:
  "Many1 4 Lowercase (initial ''abc123'') =
     Some (VList [VByte CHR ''a'', VByte CHR ''b'', VByte CHR ''c''], None,
           \<lparr>Source = ''abc123'', Pos = 3, Line = 1\<rparr>)"
  by code_simp

lemma scenario_eof: "Eof (initial '''') = Some (VNil, None, \<lparr>Source = '''', Pos = 0, Line = 1\<rparr>)"
  by code_simp

lemma scenario_char:
  "Parse ''x'' (Char CHR ''y'') =
     Some (VNil, Some \<lparr>Reason = ''Expected '' @ quote @ ''y'' @ quote, ErrLine = 1\<rparr>)"
  by code_simp

lemma scenario_digits:
  "Parse '''' (Many1 1 Digit) =
     Some (VNil, Some \<lparr>Reason = ''Expected one of '' @ quote @ ''0123456789'' @ quote @
                              '' but got '' @ quote @ [CHR 0x00] @ quote, ErrLine = 1\<rparr>)"
  by code_simp

subsection \<open>The line counter wraps around\<close>

text \<open>
  At the largest line number a Go \<^verbatim>\<open>int\<close> holds, consuming a line feed wraps the
  counter to the smallest: \<open>Eof\<close> on a line feed, and \<open>String\<close> failing behind one.
\<close>

lemma Eof_line_wraps:
  "Eof \<lparr>Source = [CHR 0x0A], Pos = 0, Line = 0x7FFFFFFFFFFFFFFF\<rparr> =
     Some (VNil,
       Some \<lparr>Reason = ''Expected end of file but got '' @ quote @ [CHR 0x0A] @ quote,
             ErrLine = 0x8000000000000000\<rparr>,
       \<lparr>Source = [CHR 0x0A], Pos = 1, Line = 0x8000000000000000\<rparr>) \<and>
   sint (0x8000000000000000 :: 64 word) = - 9223372036854775808"
  by (simp add: Eof_def next_def trap_def fmt_c_def Let_def)

lemma String_line_wraps:
  "String [CHR 0x0A, CHR ''b''] \<lparr>Source = [CHR 0x0A, CHR ''c''], Pos = 0, Line = 0x7FFFFFFFFFFFFFFF\<rparr> =
     Some (VNil,
       Some \<lparr>Reason = ''Expected '' @ quote @ [CHR 0x0A, CHR ''b''] @ quote,
             ErrLine = 0x8000000000000000\<rparr>,
       \<lparr>Source = [CHR 0x0A, CHR ''c''], Pos = 0, Line = 0x8000000000000000\<rparr>)"
  by (simp add: String_def next_def trap_def Let_def)

end
